theory Spec2Isabelle
  imports Complex_Main
begin

section \<open>Pico Logger: the data of \<^verbatim>\<open>pico_logger.h\<close>\<close>

text \<open>
  The header keeps its whole state in file-scope variables. The model gathers them in
  one record, together with the three channels the functions write to (standard
  output, standard error, the file system), and passes the record through every call.

  A \<^verbatim>\<open>const char *\<close> argument is modelled by the characters before its
  terminating NUL, as a \<open>string\<close>; a NULL pointer of type \<^verbatim>\<open>char *\<close> is
  \<open>None\<close>.

  \<^verbatim>\<open>print_stack_trace\<close> and \<^verbatim>\<open>dump_memory\<close> only print and read
  none of the variables; they are left out.
\<close>

subsection \<open>Levels and colours\<close>

text \<open>
  \<^verbatim>\<open>DebugLevel\<close> is a C enumeration: an integer type whose named values
  are 0 to 3. \<^verbatim>\<open>log_message\<close> compares levels with \<open><\<close> and has a
  \<^verbatim>\<open>default\<close> branch for any other value, so the model keeps the number.
\<close>

type_synonym DebugLevel = nat

definition DEBUG_LEVEL_INFO :: DebugLevel where "DEBUG_LEVEL_INFO = 0"
definition DEBUG_LEVEL_WARNING :: DebugLevel where "DEBUG_LEVEL_WARNING = 1"
definition DEBUG_LEVEL_ERROR :: DebugLevel where "DEBUG_LEVEL_ERROR = 2"
definition DEBUG_LEVEL_CRITICAL :: DebugLevel where "DEBUG_LEVEL_CRITICAL = 3"

definition KNRM :: string where "KNRM = CHR 0x1B # ''[0m''"
definition KRED :: string where "KRED = CHR 0x1B # ''[31m''"
definition KYEL :: string where "KYEL = CHR 0x1B # ''[33m''"
definition KBLU :: string where "KBLU = CHR 0x1B # ''[34m''"
definition KMAG :: string where "KMAG = CHR 0x1B # ''[35m''"

definition newline :: string where "newline = [CHR 0x0A]"

subsection \<open>The state\<close>

record timespec =
  tv_sec :: int
  tv_nsec :: int

text \<open>
  One element of standard output is what one \<^verbatim>\<open>printf\<close> call printed.
  \<^verbatim>\<open>log_message\<close> prints text only. \<^verbatim>\<open>log_performance\<close> prints
  \<^verbatim>\<open>"METRICS Function %s took %.9f seconds to execute.\n"\<close>; the model keeps
  its two arguments, the second as the exact value of the expression before the
  rounding to \<^verbatim>\<open>double\<close>.
\<close>

datatype display = Printed string | Metrics string real

text \<open>
  \<^verbatim>\<open>log_entries\<close> points to an array of \<^verbatim>\<open>LogEntry\<close>, each a single
  \<^verbatim>\<open>char *message\<close>. The model is the list of the array's slots: \<open>Some m\<close>
  for a slot that points to a copy of \<open>m\<close>, \<open>None\<close> for a slot that was never
  written or holds NULL. The NULL array is the empty list. An element of
  \<open>stderr\<close> is the prefix given to one \<^verbatim>\<open>perror\<close> call.
\<close>

record logger =
  logging_enabled :: bool
  min_log_level :: DebugLevel
  start_time :: timespec
  log_entries :: "string option list"
  log_capacity :: nat
  log_count :: nat
  stdout :: "display list"
  stderr :: "string list"
  files :: "string \<Rightarrow> string option"

definition initial_state :: "(string \<Rightarrow> string option) \<Rightarrow> logger" where
  "initial_state fs =
     \<lparr>logging_enabled = True, min_log_level = DEBUG_LEVEL_INFO,
      start_time = \<lparr>tv_sec = 0, tv_nsec = 0\<rparr>,
      log_entries = [], log_capacity = 0, log_count = 0,
      stdout = [], stderr = [], files = fs\<rparr>"

subsection \<open>The environment of one call\<close>

text \<open>
  What a call receives from the C library and the operating system: whether
  \<^verbatim>\<open>realloc\<close>, \<^verbatim>\<open>strdup\<close> and \<^verbatim>\<open>fopen\<close> succeed, what
  \<^verbatim>\<open>strftime\<close> wrote for the current local time, the reading of
  \<^verbatim>\<open>CLOCK_MONOTONIC\<close>, and the value of \<^verbatim>\<open>__FILE__\<close> inside the header.
\<close>

record env =
  realloc_grants :: bool
  strdup_grants :: bool
  fopen_grants :: "string \<Rightarrow> bool"
  time_buffer :: string
  clock_monotonic :: timespec
  header_file :: string

text \<open>
  A call returns the new state, or it ends the process with \<^verbatim>\<open>exit\<close> (the
  status and the state at that moment), or it leaves the defined behaviour of C (an
  access outside the array, a read of a slot that holds no string).
\<close>

datatype abort = Exit nat logger | Undefined_behaviour

definition EXIT_FAILURE :: nat where "EXIT_FAILURE = 1"

text \<open>
  \<^verbatim>\<open>size_t\<close> has 64 bits and a \<^verbatim>\<open>LogEntry\<close> is one pointer of 8 bytes
  (the header includes \<^verbatim>\<open>execinfo.h\<close>: glibc, LP64). Sizes are natural numbers
  with the wrap-around written out.
\<close>

definition size_t :: "nat \<Rightarrow> nat" where "size_t n = n mod 2 ^ 64"
definition PTRDIFF_MAX :: nat where "PTRDIFF_MAX = 2 ^ 63 - 1"
definition sizeof_LogEntry :: nat where "sizeof_LogEntry = 8"

text \<open>
  \<^verbatim>\<open>realloc(log_entries, bytes)\<close>: no allocation of more than
  \<^verbatim>\<open>PTRDIFF_MAX\<close> bytes succeeds; below that the environment decides. The new
  array has room for \<open>bytes div 8\<close> entries, keeps the old slots that fit, and its
  other slots are not initialised.
\<close>

definition realloc :: "env \<Rightarrow> string option list \<Rightarrow> nat \<Rightarrow> string option list option" where
  "realloc e old bytes =
     (if realloc_grants e \<and> bytes \<le> PTRDIFF_MAX
      then Some (take (bytes div sizeof_LogEntry) old
                 @ replicate (bytes div sizeof_LogEntry - length old) None)
      else None)"

definition strdup :: "env \<Rightarrow> string \<Rightarrow> string option" where
  "strdup e m = (if strdup_grants e then Some m else None)"

section \<open>The log store\<close>

text \<open>Lines 90 to 99 of \<^verbatim>\<open>add_log_entry\<close>: the array grows when it is full.\<close>

definition new_capacity :: "logger \<Rightarrow> nat" where
  "new_capacity s = (if log_capacity s = 0 then 16 else size_t (log_capacity s * 2))"

definition grow_if_full :: "env \<Rightarrow> logger \<Rightarrow> abort + logger" where
  "grow_if_full e s =
     (if log_count s = log_capacity s then
        (case realloc e (log_entries s) (size_t (new_capacity s * sizeof_LogEntry)) of
           None \<Rightarrow>
             Inl (Exit EXIT_FAILURE
               (s\<lparr>stderr := stderr s @ [''Failed to allocate memory for log entries'']\<rparr>))
         | Some new_entries \<Rightarrow>
             Inr (s\<lparr>log_entries := new_entries, log_capacity := new_capacity s\<rparr>))
      else Inr s)"

text \<open>Lines 101 to 106: the copy is stored in slot \<open>log_count\<close>, then the count grows.\<close>

definition store_copy :: "env \<Rightarrow> string \<Rightarrow> logger \<Rightarrow> abort + logger" where
  "store_copy e log_message s =
     (if log_count s < length (log_entries s) then
        (case strdup e log_message of
           None \<Rightarrow>
             Inl (Exit EXIT_FAILURE
               (s\<lparr>log_entries := (log_entries s)[log_count s := None],
                  stderr := stderr s @ [''Failed to allocate memory for log message'']\<rparr>))
         | Some copy \<Rightarrow>
             Inr (s\<lparr>log_entries := (log_entries s)[log_count s := Some copy],
                    log_count := size_t (log_count s + 1)\<rparr>))
      else Inl Undefined_behaviour)"

definition add_log_entry :: "env \<Rightarrow> string \<Rightarrow> logger \<Rightarrow> abort + logger" where
  "add_log_entry e log_message s =
     (case grow_if_full e s of
        Inl a \<Rightarrow> Inl a
      | Inr s1 \<Rightarrow> store_copy e log_message s1)"

text \<open>
  \<^verbatim>\<open>free_log_entries\<close> frees every message and the array; what is left of it in
  the model is the reset of the three variables.
\<close>

definition free_log_entries :: "logger \<Rightarrow> logger" where
  "free_log_entries s = s\<lparr>log_entries := [], log_capacity := 0, log_count := 0\<rparr>"

text \<open>
  \<^verbatim>\<open>save_log_file\<close>: the loop of lines 187 to 189 reads slot \<open>i\<close> for every
  \<open>i\<close> below \<open>log_count\<close> and prints it with \<^verbatim>\<open>"%s\n"\<close>. \<open>out\<close> is what
  the stream has received so far. A slot outside the array or without a string is
  undefined behaviour, \<open>None\<close> here.
\<close>

function fprintf_entries :: "string option list \<Rightarrow> nat \<Rightarrow> nat \<Rightarrow> string \<Rightarrow> string option" where
  "fprintf_entries es n i out =
     (if i < n then
        (if i < length es then
           (case es ! i of
              None \<Rightarrow> None
            | Some m \<Rightarrow> fprintf_entries es n (i + 1) (out @ m @ newline))
         else None)
      else Some out)"
  by pat_completeness auto
termination
  by (relation "measure (\<lambda>(es, n, i, out). n - i)") auto

declare fprintf_entries.simps [simp del]

text \<open>
  \<^verbatim>\<open>fopen(path, "w")\<close> either fails and leaves the file system as it is, or
  gives an empty stream; \<^verbatim>\<open>fclose\<close> makes what the stream received the content
  of the file. Writes to an open stream are taken to succeed (the source does not
  look at the results of \<^verbatim>\<open>fprintf\<close> and \<^verbatim>\<open>fclose\<close>).
\<close>

definition save_log_file :: "env \<Rightarrow> string \<Rightarrow> logger \<Rightarrow> abort + logger" where
  "save_log_file e path s =
     (if \<not> fopen_grants e path then
        Inr (s\<lparr>stderr := stderr s @ [''Failed to open log file'']\<rparr>)
      else
        (case fprintf_entries (log_entries s) (log_count s) 0 [] of
           None \<Rightarrow> Inl Undefined_behaviour
         | Some text \<Rightarrow> Inr (s\<lparr>files := (files s)(path \<mapsto> text)\<rparr>)))"

section \<open>The gate and the formatter\<close>

definition set_logging_enabled :: "bool \<Rightarrow> logger \<Rightarrow> logger" where
  "set_logging_enabled enabled s = s\<lparr>logging_enabled := enabled\<rparr>"

definition set_minimum_log_level :: "DebugLevel \<Rightarrow> logger \<Rightarrow> logger" where
  "set_minimum_log_level level s = s\<lparr>min_log_level := level\<rparr>"

text \<open>The conversion \<^verbatim>\<open>%d\<close>.\<close>

fun show_nat :: "nat \<Rightarrow> string" where
  "show_nat n =
     (if n < 10 then [''0123456789'' ! n]
      else show_nat (n div 10) @ [''0123456789'' ! (n mod 10)])"

definition show_int :: "int \<Rightarrow> string" where
  "show_int i = (if i < 0 then CHR ''-'' # show_nat (nat (- i)) else show_nat (nat i))"

text \<open>The \<^verbatim>\<open>switch\<close> of lines 126 to 132: the name of the level and its colour.\<close>

definition level_str :: "DebugLevel \<Rightarrow> string" where
  "level_str level =
     (if level = DEBUG_LEVEL_INFO then ''INFO''
      else if level = DEBUG_LEVEL_WARNING then ''WARNING''
      else if level = DEBUG_LEVEL_ERROR then ''ERROR''
      else if level = DEBUG_LEVEL_CRITICAL then ''CRITICAL''
      else ''UNKNOWN'')"

definition color :: "DebugLevel \<Rightarrow> string" where
  "color level =
     (if level = DEBUG_LEVEL_INFO then KBLU
      else if level = DEBUG_LEVEL_WARNING then KYEL
      else if level = DEBUG_LEVEL_ERROR then KRED
      else if level = DEBUG_LEVEL_CRITICAL then KMAG
      else KNRM)"

text \<open>
  \<^verbatim>\<open>log_message\<close>. Its argument \<open>expanded\<close> is the text that the format and
  the variable arguments expand to; \<^verbatim>\<open>vsnprintf\<close> keeps 511 characters of it in
  \<^verbatim>\<open>log_line[512]\<close>, and \<^verbatim>\<open>snprintf\<close> keeps 1023 characters of the plain
  line in \<^verbatim>\<open>full_log[1024]\<close>. The line is printed first and stored second.
\<close>

definition display_line :: "env \<Rightarrow> DebugLevel \<Rightarrow> string \<Rightarrow> int \<Rightarrow> string \<Rightarrow> string \<Rightarrow> string" where
  "display_line e level file line func log_line =
     ''['' @ time_buffer e @ ''] '' @ color level @ level_str level @ KNRM
     @ '' ['' @ file @ '':'' @ show_int line @ ''] '' @ func @ '': '' @ log_line @ newline"

definition full_log :: "env \<Rightarrow> DebugLevel \<Rightarrow> string \<Rightarrow> int \<Rightarrow> string \<Rightarrow> string \<Rightarrow> string" where
  "full_log e level file line func log_line =
     take 1023
       (''['' @ time_buffer e @ ''] '' @ level_str level
        @ '' ['' @ file @ '':'' @ show_int line @ ''] '' @ func @ '': '' @ log_line)"

definition log_message ::
    "env \<Rightarrow> DebugLevel \<Rightarrow> string \<Rightarrow> int \<Rightarrow> string \<Rightarrow> string \<Rightarrow> logger \<Rightarrow> abort + logger" where
  "log_message e level file line func expanded s =
     (if \<not> logging_enabled s \<or> level < min_log_level s then Inr s
      else
        (let log_line = take 511 expanded
         in add_log_entry e (full_log e level file line func log_line)
              (s\<lparr>stdout := stdout s @ [Printed (display_line e level file line func log_line)]\<rparr>)))"

section \<open>The performance timer\<close>

text \<open>
  The value of \<^verbatim>\<open>(end.tv_sec - start_time.tv_sec) + (end.tv_nsec -
  start_time.tv_nsec) / 1e9\<close>, exactly. The two differences are computed on integers;
  the source then converts to \<^verbatim>\<open>double\<close>, and that rounding is not modelled.
\<close>

definition time_taken :: "timespec \<Rightarrow> timespec \<Rightarrow> real" where
  "time_taken end start =
     real_of_int (tv_sec end - tv_sec start)
     + real_of_int (tv_nsec end - tv_nsec start) / 1000000000"

text \<open>
  \<^verbatim>\<open>LOG_ERROR("Start time not defined.")\<close> on line 166 expands to a call of
  \<^verbatim>\<open>log_message\<close> with \<^verbatim>\<open>__FILE__\<close>, \<^verbatim>\<open>__LINE__\<close> and
  \<^verbatim>\<open>__func__\<close>.
\<close>

definition log_performance :: "env \<Rightarrow> string option \<Rightarrow> logger \<Rightarrow> abort + logger" where
  "log_performance e message s =
     (case message of
        Some m \<Rightarrow>
          (if tv_nsec (start_time s) \<noteq> 0 \<or> tv_sec (start_time s) \<noteq> 0 then
             Inr (s\<lparr>stdout := stdout s
                      @ [Metrics m (time_taken (clock_monotonic e) (start_time s))]\<rparr>)
           else
             log_message e DEBUG_LEVEL_ERROR (header_file e) 166 ''log_performance''
               ''Start time not defined.'' s)
      | None \<Rightarrow> Inr (s\<lparr>start_time := clock_monotonic e\<rparr>))"

section \<open>Sequences of calls\<close>

text \<open>
  A program that uses the header is a sequence of calls, each in its environment. A
  sequence stops at the first call that does not return.
\<close>

datatype call =
    Add_log_entry string
  | Free_log_entries
  | Log_message DebugLevel string int string string
  | Log_performance "string option"
  | Set_logging_enabled bool
  | Set_minimum_log_level DebugLevel
  | Save_log_file string

fun step :: "env \<Rightarrow> call \<Rightarrow> logger \<Rightarrow> abort + logger" where
  "step e (Add_log_entry m) s = add_log_entry e m s"
| "step e Free_log_entries s = Inr (free_log_entries s)"
| "step e (Log_message level file line func expanded) s =
     log_message e level file line func expanded s"
| "step e (Log_performance message) s = log_performance e message s"
| "step e (Set_logging_enabled b) s = Inr (set_logging_enabled b s)"
| "step e (Set_minimum_log_level level) s = Inr (set_minimum_log_level level s)"
| "step e (Save_log_file path) s = save_log_file e path s"

fun run :: "(env \<times> call) list \<Rightarrow> logger \<Rightarrow> abort + logger" where
  "run [] s = Inr s"
| "run ((e, c) # cs) s = (case step e c s of Inl a \<Rightarrow> Inl a | Inr s' \<Rightarrow> run cs s')"

text \<open>Appending the texts of a list, one call of \<^verbatim>\<open>add_log_entry\<close> each.\<close>

fun append_all :: "(env \<times> string) list \<Rightarrow> logger \<Rightarrow> abort + logger" where
  "append_all [] s = Inr s"
| "append_all ((e, m) # ms) s =
     (case add_log_entry e m s of Inl a \<Rightarrow> Inl a | Inr s' \<Rightarrow> append_all ms s')"

section \<open>What the store holds\<close>

text \<open>The slots below \<open>log_count\<close>, and the file that a flush of given texts makes.\<close>

definition entries :: "logger \<Rightarrow> string option list" where
  "entries s = take (log_count s) (log_entries s)"

definition file_text :: "string list \<Rightarrow> string" where
  "file_text ms = concat (map (\<lambda>m. m @ newline) ms)"

text \<open>
  The invariant of the store: the array has \<open>log_capacity\<close> slots, at most that many
  are in use, every slot in use holds a string, and the array is an object that can
  exist (at most \<^verbatim>\<open>PTRDIFF_MAX\<close> bytes).
\<close>

definition store_ok :: "logger \<Rightarrow> bool" where
  "store_ok s \<longleftrightarrow>
     length (log_entries s) = log_capacity s
     \<and> log_count s \<le> log_capacity s
     \<and> list_all (\<lambda>x. x \<noteq> None) (entries s)
     \<and> log_capacity s * sizeof_LogEntry \<le> PTRDIFF_MAX"

text \<open>The texts in the store, oldest first.\<close>

definition texts :: "logger \<Rightarrow> string list" where
  "texts s = map the (entries s)"

text \<open>
  Neither allocation that a call of \<^verbatim>\<open>add_log_entry\<close> may ask for returns
  NULL: the copy of the text, and the larger array when the store is full.
\<close>

definition allocations_succeed :: "env \<Rightarrow> string \<Rightarrow> logger \<Rightarrow> bool" where
  "allocations_succeed e m s \<longleftrightarrow>
     strdup e m \<noteq> None
     \<and> (log_count s = log_capacity s \<longrightarrow>
          realloc e (log_entries s) (size_t (new_capacity s * sizeof_LogEntry)) \<noteq> None)"

text \<open>
  The state that a successful \<^verbatim>\<open>add_log_entry\<close> leaves: a full array has
  grown by uninitialised slots to 16 or to twice its capacity, slot \<open>log_count\<close>
  holds the copy, and the count is one more.
\<close>

definition grown :: "logger \<Rightarrow> logger" where
  "grown s =
     (if log_count s = log_capacity s then
        s\<lparr>log_entries :=
             log_entries s
             @ replicate ((if log_capacity s = 0 then 16 else 2 * log_capacity s)
                          - log_capacity s) None,
          log_capacity := (if log_capacity s = 0 then 16 else 2 * log_capacity s)\<rparr>
      else s)"

definition appended :: "string \<Rightarrow> logger \<Rightarrow> logger" where
  "appended m s =
     (grown s)\<lparr>log_entries := (log_entries (grown s))[log_count s := Some m],
               log_count := log_count s + 1\<rparr>"

text \<open>A timer reading as the clock gives it, and the order of two readings.\<close>

definition valid_timespec :: "timespec \<Rightarrow> bool" where
  "valid_timespec t \<longleftrightarrow> 0 \<le> tv_sec t \<and> 0 \<le> tv_nsec t \<and> tv_nsec t < 1000000000"

definition not_before :: "timespec \<Rightarrow> timespec \<Rightarrow> bool" where
  "not_before t1 t0 \<longleftrightarrow>
     tv_sec t0 < tv_sec t1 \<or> (tv_sec t0 = tv_sec t1 \<and> tv_nsec t0 \<le> tv_nsec t1)"

definition armed :: "logger \<Rightarrow> bool" where
  "armed s \<longleftrightarrow> tv_nsec (start_time s) \<noteq> 0 \<or> tv_sec (start_time s) \<noteq> 0"

text \<open>The calls of a sequence that are calls of \<^verbatim>\<open>log_message\<close>.\<close>

fun is_Log_message :: "call \<Rightarrow> bool" where
  "is_Log_message (Log_message level file line func expanded) = True"
| "is_Log_message c = False"

subsection \<open>Concrete inputs\<close>

definition no_files :: "string \<Rightarrow> string option" where
  "no_files path = None"

definition any_path :: "string \<Rightarrow> bool" where
  "any_path path = True"

definition no_path :: "string \<Rightarrow> bool" where
  "no_path path = False"

definition env_ok :: env where
  "env_ok =
     \<lparr>realloc_grants = True, strdup_grants = True, fopen_grants = any_path,
      time_buffer = ''2025-01-01 10:00:00'',
      clock_monotonic = \<lparr>tv_sec = 7, tv_nsec = 250\<rparr>,
      header_file = ''pico_logger.h''\<rparr>"

definition env_later :: env where
  "env_later = env_ok\<lparr>clock_monotonic := \<lparr>tv_sec = 9, tv_nsec = 100\<rparr>\<rparr>"

definition env_no_memory :: env where
  "env_no_memory = env_ok\<lparr>realloc_grants := False, strdup_grants := False\<rparr>"

definition env_no_open :: env where
  "env_no_open = env_ok\<lparr>fopen_grants := no_path\<rparr>"

section \<open>Lemmas\<close>

lemmas DebugLevel_defs =
  DEBUG_LEVEL_INFO_def DEBUG_LEVEL_WARNING_def DEBUG_LEVEL_ERROR_def DEBUG_LEVEL_CRITICAL_def

subsection \<open>Appending\<close>

lemma store_ok_initial: "store_ok (initial_state fs)"
  by (simp add: store_ok_def initial_state_def entries_def PTRDIFF_MAX_def)

lemma new_capacity_no_wrap:
  assumes "store_ok s"
  shows "new_capacity s = (if log_capacity s = 0 then 16 else 2 * log_capacity s)"
  using assms
  by (auto simp add: new_capacity_def size_t_def store_ok_def PTRDIFF_MAX_def sizeof_LogEntry_def)

lemma bytes_no_wrap:
  assumes "store_ok s"
  shows "size_t (new_capacity s * sizeof_LogEntry) = new_capacity s * 8"
proof -
  have "log_capacity s * 8 \<le> 2 ^ 63 - 1"
    using assms by (simp add: store_ok_def PTRDIFF_MAX_def sizeof_LogEntry_def)
  then have "new_capacity s * 8 < 2 ^ 64"
    by (auto simp add: new_capacity_no_wrap [OF assms])
  then show ?thesis
    by (simp add: size_t_def sizeof_LogEntry_def)
qed

lemma grow_if_full_eq:
  assumes ok: "store_ok s" and alloc: "allocations_succeed e m s"
  shows "grow_if_full e s = Inr (grown s)"
proof (cases "log_count s = log_capacity s")
  case False
  then show ?thesis by (simp add: grow_if_full_def grown_def)
next
  case True
  let ?n = "if log_capacity s = 0 then 16 else 2 * log_capacity s"
  have n: "new_capacity s = ?n"
    by (rule new_capacity_no_wrap [OF ok])
  have len: "length (log_entries s) = log_capacity s"
    using ok by (simp add: store_ok_def)
  from alloc True obtain new_entries
    where r: "realloc e (log_entries s) (size_t (new_capacity s * sizeof_LogEntry)) = Some new_entries"
    by (auto simp add: allocations_succeed_def)
  have "size_t (new_capacity s * sizeof_LogEntry) = ?n * 8"
    using bytes_no_wrap [OF ok] n by simp
  with r have "realloc e (log_entries s) (?n * 8) = Some new_entries"
    by simp
  then have "new_entries = log_entries s @ replicate (?n - log_capacity s) None"
    using len by (auto simp add: realloc_def sizeof_LogEntry_def split: if_splits)
  then show ?thesis
    using True r n by (simp add: grow_if_full_def grown_def)
qed

lemma grown_facts:
  assumes "store_ok s"
  shows "log_count (grown s) = log_count s"
    and "length (log_entries (grown s)) = log_capacity (grown s)"
    and "log_count s < log_capacity (grown s)"
    and "take (log_count s) (log_entries (grown s)) = entries s"
  using assms by (auto simp add: grown_def store_ok_def entries_def)

lemma entries_appended:
  assumes "store_ok s"
  shows "entries (appended m s) = entries s @ [Some m]"
proof -
  have lt: "log_count s < length (log_entries (grown s))"
    using grown_facts(2,3) [OF assms] by simp
  have "take (Suc (log_count s)) ((log_entries (grown s))[log_count s := Some m])
        = take (log_count s) (log_entries (grown s)) @ [Some m]"
    using lt by (simp add: take_Suc_conv_app_nth)
  then show ?thesis
    by (simp add: entries_def appended_def grown_facts(4) [OF assms, unfolded entries_def])
qed

lemma add_log_entry_eq:
  assumes ok: "store_ok s" and alloc: "allocations_succeed e m s"
  shows "add_log_entry e m s = Inr (appended m s)"
proof -
  have dup: "strdup e m = Some m"
    using alloc by (auto simp add: allocations_succeed_def strdup_def split: if_splits)
  have lt: "log_count (grown s) < length (log_entries (grown s))"
    using grown_facts(1,2,3) [OF ok] by simp
  have "log_count s + 1 < 2 ^ 64"
    using ok by (simp add: store_ok_def PTRDIFF_MAX_def sizeof_LogEntry_def)
  then have cnt: "size_t (log_count s + 1) = log_count s + 1"
    by (simp add: size_t_def)
  show ?thesis
    using lt dup cnt
    by (simp add: add_log_entry_def grow_if_full_eq [OF ok alloc] store_copy_def
        appended_def grown_facts(1) [OF ok])
qed

lemma store_ok_appended:
  assumes ok: "store_ok s" and alloc: "allocations_succeed e m s"
  shows "store_ok (appended m s)"
proof -
  have len: "length (log_entries (appended m s)) = log_capacity (appended m s)"
    using grown_facts(2) [OF ok] by (simp add: appended_def)
  have cnt: "log_count (appended m s) \<le> log_capacity (appended m s)"
    using grown_facts(3) [OF ok] by (simp add: appended_def)
  have old: "list_all (\<lambda>x. x \<noteq> None) (entries s)"
    using ok by (simp add: store_ok_def)
  have live: "list_all (\<lambda>x. x \<noteq> None) (entries (appended m s))"
    using old by (simp add: entries_appended [OF ok])
  have fits: "log_capacity (appended m s) * sizeof_LogEntry \<le> PTRDIFF_MAX"
  proof (cases "log_count s = log_capacity s")
    case False
    then show ?thesis using ok by (simp add: appended_def grown_def store_ok_def)
  next
    case True
    with alloc have "size_t (new_capacity s * sizeof_LogEntry) \<le> PTRDIFF_MAX"
      by (auto simp add: allocations_succeed_def realloc_def split: if_splits)
    then have "new_capacity s * sizeof_LogEntry \<le> PTRDIFF_MAX"
      using bytes_no_wrap [OF ok] by (simp add: sizeof_LogEntry_def)
    then show ?thesis
      using True new_capacity_no_wrap [OF ok] by (simp add: appended_def grown_def)
  qed
  show ?thesis
    unfolding store_ok_def using len cnt live fits by simp
qed

lemma realloc_strdup_grants [simp]: "realloc (e\<lparr>strdup_grants := b\<rparr>) = realloc e"
  by (rule ext)+ (simp add: realloc_def)

lemma grow_if_full_strdup_grants: "grow_if_full (e\<lparr>strdup_grants := b\<rparr>) s = grow_if_full e s"
  by (simp add: grow_if_full_def)

text \<open>When an allocation fails the call ends the process, and says so on standard error.\<close>

lemma add_log_entry_exit:
  assumes ok: "store_ok s" and fail: "\<not> allocations_succeed e m s"
  shows "\<exists>w text. add_log_entry e m s = Inl (Exit EXIT_FAILURE w)
           \<and> stderr w = stderr s @ [text] \<and> stdout w = stdout s \<and> files w = files s
           \<and> log_count w = log_count s \<and> entries w = entries s"
proof (cases "log_count s = log_capacity s
    \<and> realloc e (log_entries s) (size_t (new_capacity s * sizeof_LogEntry)) = None")
  case True
  then show ?thesis
    by (simp add: add_log_entry_def grow_if_full_def entries_def)
next
  case False
  then have "allocations_succeed (e\<lparr>strdup_grants := True\<rparr>) m s"
    by (auto simp add: allocations_succeed_def strdup_def)
  from grow_if_full_eq [OF ok this] have g: "grow_if_full e s = Inr (grown s)"
    by (simp add: grow_if_full_strdup_grants)
  from False fail have dup: "strdup e m = None"
    by (auto simp add: allocations_succeed_def)
  have lt: "log_count (grown s) < length (log_entries (grown s))"
    using grown_facts(1,2,3) [OF ok] by simp
  have keep: "take (log_count s) ((log_entries (grown s))[log_count s := None]) = entries s"
    using grown_facts(4) [OF ok] by simp
  show ?thesis
    using lt dup keep
    by (simp add: add_log_entry_def g store_copy_def grown_facts(1) [OF ok] entries_def)
      (simp add: grown_def)
qed

lemma add_log_entry_Inr:
  assumes ok: "store_ok s" and ret: "add_log_entry e m s = Inr s'"
  shows "allocations_succeed e m s \<and> s' = appended m s"
proof (cases "allocations_succeed e m s")
  case True
  with add_log_entry_eq [OF ok True] ret show ?thesis by simp
next
  case False
  from add_log_entry_exit [OF ok False] ret show ?thesis by auto
qed

lemma appended_frame [simp]:
  "stdout (appended m s) = stdout s"
  "stderr (appended m s) = stderr s"
  "files (appended m s) = files s"
  "logging_enabled (appended m s) = logging_enabled s"
  "min_log_level (appended m s) = min_log_level s"
  "start_time (appended m s) = start_time s"
  "log_count (appended m s) = log_count s + 1"
  by (simp_all add: appended_def grown_def)

lemma appended_capacity:
  "log_capacity (appended m s) =
     (if log_count s = log_capacity s
      then (if log_capacity s = 0 then 16 else 2 * log_capacity s)
      else log_capacity s)"
  by (simp add: appended_def grown_def)

subsection \<open>Flushing\<close>

lemma entries_texts:
  assumes "store_ok s"
  shows "entries s = map Some (texts s)"
proof -
  have "list_all (\<lambda>x. x \<noteq> None) (entries s)"
    using assms by (simp add: store_ok_def)
  then have "map Some (map the (entries s)) = entries s"
    by (induction "entries s" arbitrary: s) (auto simp add: list_all_iff map_idI)
  then show ?thesis by (simp add: texts_def)
qed

lemma texts_appended:
  assumes "store_ok s"
  shows "texts (appended m s) = texts s @ [m]"
  by (simp add: texts_def entries_appended [OF assms])

lemma file_text_Cons: "file_text (m # ms) = m @ newline @ file_text ms"
  by (simp add: file_text_def)

text \<open>The loop of the flush, started at any index with any prefix already written.\<close>

lemma fprintf_entries_from:
  assumes "take n es = map Some ms" and "n \<le> length es" and "i \<le> n"
  shows "fprintf_entries es n i out = Some (out @ file_text (drop i ms))"
  using assms
proof (induction es n i out rule: fprintf_entries.induct)
  case (1 es n i out)
  have len: "length ms = n"
    using "1.prems"(1,2) by (metis length_map length_take min.absorb2)
  show ?case
  proof (cases "i < n")
    case False
    with "1.prems"(3) len show ?thesis
      by (subst fprintf_entries.simps) (simp add: file_text_def)
  next
    case True
    then have slot: "es ! i = Some (ms ! i)"
      using "1.prems"(1) len by (metis nth_map nth_take)
    have inside: "i < length es"
      using True "1.prems"(2) by simp
    have rest: "fprintf_entries es n (i + 1) (out @ ms ! i @ newline)
                = Some ((out @ ms ! i @ newline) @ file_text (drop (i + 1) ms))"
      using "1.IH" [OF True inside slot] "1.prems"(1,2) True by simp
    have "drop i ms = ms ! i # drop (i + 1) ms"
      using True len by (simp add: Cons_nth_drop_Suc)
    then show ?thesis
      using True inside slot rest
      by (subst fprintf_entries.simps) (simp add: file_text_Cons)
  qed
qed

lemma fprintf_entries_store:
  assumes "store_ok s"
  shows "fprintf_entries (log_entries s) (log_count s) 0 [] = Some (file_text (texts s))"
proof -
  have "take (log_count s) (log_entries s) = map Some (texts s)"
    using entries_texts [OF assms] by (simp add: entries_def)
  moreover have "log_count s \<le> length (log_entries s)"
    using assms by (simp add: store_ok_def)
  ultimately show ?thesis
    using fprintf_entries_from [of "log_count s" "log_entries s" "texts s" 0 "[]"] by simp
qed

lemma save_log_file_eq:
  assumes "store_ok s" and "fopen_grants e path"
  shows "save_log_file e path s = Inr (s\<lparr>files := (files s)(path \<mapsto> file_text (texts s))\<rparr>)"
  using assms(2) by (simp add: save_log_file_def fprintf_entries_store [OF assms(1)])

lemma save_log_file_fails:
  assumes "\<not> fopen_grants e path"
  shows "save_log_file e path s = Inr (s\<lparr>stderr := stderr s @ [''Failed to open log file'']\<rparr>)"
  using assms by (simp add: save_log_file_def)

text \<open>The invariant and the allocations look at the three variables of the store only.\<close>

lemma store_ok_cong:
  assumes "log_entries s' = log_entries s" "log_capacity s' = log_capacity s"
    "log_count s' = log_count s"
  shows "store_ok s' = store_ok s"
  using assms by (simp add: store_ok_def entries_def)

lemma save_log_file_store:
  assumes "store_ok s"
  shows "\<exists>s'. save_log_file e path s = Inr s' \<and> log_entries s' = log_entries s
           \<and> log_capacity s' = log_capacity s \<and> log_count s' = log_count s
           \<and> stdout s' = stdout s \<and> logging_enabled s' = logging_enabled s
           \<and> min_log_level s' = min_log_level s \<and> start_time s' = start_time s"
proof (cases "fopen_grants e path")
  case True
  then show ?thesis by (simp add: save_log_file_eq [OF assms])
next
  case False
  then show ?thesis by (simp add: save_log_file_fails)
qed

subsection \<open>Logging and sequences of calls\<close>

lemma store_ok_frame [simp]:
  "store_ok (s\<lparr>stdout := out\<rparr>) = store_ok s"
  "store_ok (s\<lparr>stderr := err\<rparr>) = store_ok s"
  "store_ok (s\<lparr>files := fs\<rparr>) = store_ok s"
  "store_ok (s\<lparr>logging_enabled := b\<rparr>) = store_ok s"
  "store_ok (s\<lparr>min_log_level := level\<rparr>) = store_ok s"
  "store_ok (s\<lparr>start_time := t\<rparr>) = store_ok s"
  by (simp_all add: store_ok_def entries_def)

lemma allocations_succeed_frame [simp]:
  "allocations_succeed e m (s\<lparr>stdout := out\<rparr>) = allocations_succeed e m s"
  "allocations_succeed e m (s\<lparr>stderr := err\<rparr>) = allocations_succeed e m s"
  "allocations_succeed e m (s\<lparr>files := fs\<rparr>) = allocations_succeed e m s"
  "allocations_succeed e m (s\<lparr>logging_enabled := b\<rparr>) = allocations_succeed e m s"
  "allocations_succeed e m (s\<lparr>min_log_level := level\<rparr>) = allocations_succeed e m s"
  "allocations_succeed e m (s\<lparr>start_time := t\<rparr>) = allocations_succeed e m s"
  by (simp_all add: allocations_succeed_def new_capacity_def)

lemma entries_frame [simp]:
  "entries (s\<lparr>stdout := out\<rparr>) = entries s"
  "entries (s\<lparr>stderr := err\<rparr>) = entries s"
  "entries (s\<lparr>files := fs\<rparr>) = entries s"
  "entries (s\<lparr>logging_enabled := b\<rparr>) = entries s"
  "entries (s\<lparr>min_log_level := level\<rparr>) = entries s"
  "entries (s\<lparr>start_time := t\<rparr>) = entries s"
  by (simp_all add: entries_def)

lemma texts_frame [simp]:
  "texts (s\<lparr>stdout := out\<rparr>) = texts s"
  "texts (s\<lparr>stderr := err\<rparr>) = texts s"
  "texts (s\<lparr>files := fs\<rparr>) = texts s"
  "texts (s\<lparr>logging_enabled := b\<rparr>) = texts s"
  "texts (s\<lparr>min_log_level := level\<rparr>) = texts s"
  "texts (s\<lparr>start_time := t\<rparr>) = texts s"
  by (simp_all add: texts_def)

lemma log_message_closed:
  assumes "\<not> logging_enabled s \<or> level < min_log_level s"
  shows "log_message e level file line func expanded s = Inr s"
  using assms by (auto simp add: log_message_def)

lemma log_message_open:
  assumes "logging_enabled s" and "min_log_level s \<le> level"
  shows "log_message e level file line func expanded s
         = add_log_entry e (full_log e level file line func (take 511 expanded))
             (s\<lparr>stdout := stdout s
                  @ [Printed (display_line e level file line func (take 511 expanded))]\<rparr>)"
  using assms by (simp add: log_message_def Let_def)

lemma log_message_eq:
  assumes ok: "store_ok s" and "logging_enabled s" and "min_log_level s \<le> level"
    and alloc: "allocations_succeed e (full_log e level file line func (take 511 expanded)) s"
  shows "log_message e level file line func expanded s
         = Inr (appended (full_log e level file line func (take 511 expanded))
             (s\<lparr>stdout := stdout s
                  @ [Printed (display_line e level file line func (take 511 expanded))]\<rparr>))"
proof -
  let ?s1 = "s\<lparr>stdout := stdout s
                  @ [Printed (display_line e level file line func (take 511 expanded))]\<rparr>"
  have ok1: "store_ok ?s1"
    using ok by simp
  have alloc1: "allocations_succeed e (full_log e level file line func (take 511 expanded)) ?s1"
    using alloc by simp
  show ?thesis
    using assms(2,3) by (simp add: log_message_open add_log_entry_eq [OF ok1 alloc1])
qed

lemma log_message_store_ok:
  assumes ok: "store_ok s" and ret: "log_message e level file line func expanded s = Inr s'"
  shows "store_ok s'"
proof (cases "\<not> logging_enabled s \<or> level < min_log_level s")
  case True
  with ret ok show ?thesis by (simp add: log_message_closed)
next
  case False
  let ?m = "full_log e level file line func (take 511 expanded)"
  let ?s1 = "s\<lparr>stdout := stdout s
                  @ [Printed (display_line e level file line func (take 511 expanded))]\<rparr>"
  have ok1: "store_ok ?s1"
    using ok by simp
  from False ret have "add_log_entry e ?m ?s1 = Inr s'"
    by (simp add: log_message_def Let_def)
  from add_log_entry_Inr [OF ok1 this] show ?thesis
    using store_ok_appended [OF ok1] by auto
qed

lemma log_performance_store_ok:
  assumes ok: "store_ok s" and ret: "log_performance e message s = Inr s'"
  shows "store_ok s'"
proof (cases message)
  case None
  with ret have "s' = s\<lparr>start_time := clock_monotonic e\<rparr>"
    by (simp add: log_performance_def)
  then show ?thesis using ok by simp
next
  case (Some m)
  show ?thesis
  proof (cases "tv_nsec (start_time s) \<noteq> 0 \<or> tv_sec (start_time s) \<noteq> 0")
    case True
    with ret Some
    have "s' = s\<lparr>stdout := stdout s @ [Metrics m (time_taken (clock_monotonic e) (start_time s))]\<rparr>"
      by (auto simp add: log_performance_def)
    then show ?thesis using ok by simp
  next
    case False
    with ret Some
    have "log_message e DEBUG_LEVEL_ERROR (header_file e) 166 ''log_performance''
            ''Start time not defined.'' s = Inr s'"
      by (simp add: log_performance_def)
    from log_message_store_ok [OF ok this] show ?thesis .
  qed
qed

lemma step_store_ok:
  assumes ok: "store_ok s" and ret: "step e c s = Inr s'"
  shows "store_ok s'"
proof (cases c)
  case (Add_log_entry m)
  with ret have "add_log_entry e m s = Inr s'" by simp
  from add_log_entry_Inr [OF ok this] show ?thesis
    using store_ok_appended [OF ok] by auto
next
  case Free_log_entries
  with ret show ?thesis
    by (auto simp add: free_log_entries_def store_ok_def entries_def)
next
  case (Log_message level src line func expanded)
  with ret log_message_store_ok [OF ok] show ?thesis by simp
next
  case (Log_performance message)
  with ret log_performance_store_ok [OF ok] show ?thesis by simp
next
  case (Set_logging_enabled b)
  with ret ok show ?thesis
    by (auto simp add: set_logging_enabled_def)
next
  case (Set_minimum_log_level level)
  with ret ok show ?thesis
    by (auto simp add: set_minimum_log_level_def)
next
  case (Save_log_file path)
  with ret have r: "save_log_file e path s = Inr s'" by simp
  from save_log_file_store [OF ok, of e path] r ok show ?thesis
    by (auto simp add: store_ok_cong [of s' s])
qed

lemma run_store_ok:
  assumes "store_ok s" and "run cs s = Inr s'"
  shows "store_ok s'"
  using assms
proof (induction cs arbitrary: s)
  case Nil
  then show ?case by simp
next
  case (Cons ec cs)
  obtain e c where ec: "ec = (e, c)" by (cases ec)
  from Cons.prems(2) ec obtain s1 where s1: "step e c s = Inr s1" and rest: "run cs s1 = Inr s'"
    by (auto split: sum.splits)
  from Cons.IH [OF step_store_ok [OF Cons.prems(1) s1] rest] show ?case .
qed

lemma reachable_store_ok:
  assumes "run cs (initial_state fs) = Inr s"
  shows "store_ok s"
  using run_store_ok [OF store_ok_initial assms] .

lemma run_append:
  "run (cs @ ds) s = (case run cs s of Inl a \<Rightarrow> Inl a | Inr s' \<Rightarrow> run ds s')"
  by (induction cs arbitrary: s) (auto split: sum.splits)

lemma run_disabled:
  assumes "\<not> logging_enabled s" and "\<forall>c \<in> set cs. is_Log_message (snd c)"
  shows "run cs s = Inr s"
  using assms
proof (induction cs)
  case Nil
  then show ?case by simp
next
  case (Cons ec cs)
  obtain e c where ec: "ec = (e, c)" by (cases ec)
  from Cons.prems(2) ec obtain level src line func expanded
    where c: "c = Log_message level src line func expanded"
    by (cases c) auto
  have "step e c s = Inr s"
    using Cons.prems(1) by (simp add: c log_message_closed)
  then show ?case
    using Cons ec by simp
qed

lemma append_all_texts:
  assumes "store_ok s0" and "append_all ems s0 = Inr s"
  shows "store_ok s \<and> texts s = texts s0 @ map snd ems"
  using assms
proof (induction ems arbitrary: s0)
  case Nil
  then show ?case by simp
next
  case (Cons em ems)
  obtain e m where em: "em = (e, m)" by (cases em)
  from Cons.prems(2) em obtain s1
    where s1: "add_log_entry e m s0 = Inr s1" and rest: "append_all ems s1 = Inr s"
    by (auto split: sum.splits)
  from add_log_entry_Inr [OF Cons.prems(1) s1]
  have alloc: "allocations_succeed e m s0" and eq: "s1 = appended m s0"
    by simp_all
  have ok1: "store_ok s1"
    using store_ok_appended [OF Cons.prems(1) alloc] eq by simp
  have "texts s1 = texts s0 @ [m]"
    using texts_appended [OF Cons.prems(1)] eq by simp
  with Cons.IH [OF ok1 rest] em show ?case by simp
qed

text \<open>
  Appends return as long as the allocator grants every request and the array stays
  below \<open>2 ^ 59\<close> entries (\<open>2 ^ 62\<close> bytes).
\<close>

lemma append_all_returns:
  assumes "store_ok s0"
    and "\<forall>em \<in> set ems. realloc_grants (fst em) \<and> strdup_grants (fst em)"
    and "log_count s0 + length ems \<le> 2 ^ 59"
  shows "\<exists>s. append_all ems s0 = Inr s"
  using assms
proof (induction ems arbitrary: s0)
  case Nil
  then show ?case by simp
next
  case (Cons em ems)
  obtain e m where em: "em = (e, m)" by (cases em)
  have grants: "realloc_grants e" "strdup_grants e"
    using Cons.prems(2) em by simp_all
  have small: "log_count s0 < 2 ^ 59"
    using Cons.prems(3) by simp
  have alloc: "allocations_succeed e m s0"
  proof -
    have "new_capacity s0 * 8 \<le> 2 ^ 63 - 1" if "log_count s0 = log_capacity s0"
      using that small by (auto simp add: new_capacity_no_wrap [OF Cons.prems(1)])
    then show ?thesis
      using grants bytes_no_wrap [OF Cons.prems(1)]
      by (simp add: allocations_succeed_def strdup_def realloc_def PTRDIFF_MAX_def)
  qed
  have step: "add_log_entry e m s0 = Inr (appended m s0)"
    by (rule add_log_entry_eq [OF Cons.prems(1) alloc])
  have "\<exists>s. append_all ems (appended m s0) = Inr s"
  proof (rule Cons.IH)
    show "store_ok (appended m s0)"
      by (rule store_ok_appended [OF Cons.prems(1) alloc])
    show "\<forall>em \<in> set ems. realloc_grants (fst em) \<and> strdup_grants (fst em)"
      using Cons.prems(2) by simp
    show "log_count (appended m s0) + length ems \<le> 2 ^ 59"
      using Cons.prems(3) by simp
  qed
  then show ?case
    using em step by simp
qed

lemma allocations_succeed_small:
  assumes ok: "store_ok s" and "realloc_grants e" and "strdup_grants e"
    and small: "log_count s < 2 ^ 59"
  shows "allocations_succeed e m s"
proof -
  have "new_capacity s * 8 \<le> 2 ^ 63 - 1" if "log_count s = log_capacity s"
    using that small by (auto simp add: new_capacity_no_wrap [OF ok])
  then show ?thesis
    using assms(2,3) bytes_no_wrap [OF ok]
    by (simp add: allocations_succeed_def strdup_def realloc_def PTRDIFF_MAX_def)
qed

lemma append_all_eq:
  assumes "store_ok s0"
    and "\<forall>em \<in> set ems. realloc_grants (fst em) \<and> strdup_grants (fst em)"
    and "log_count s0 + length ems \<le> 2 ^ 59"
  shows "append_all ems s0 = Inr (foldl (\<lambda>s m. appended m s) s0 (map snd ems))"
  using assms
proof (induction ems arbitrary: s0)
  case Nil
  then show ?case by simp
next
  case (Cons em ems)
  obtain e m where em: "em = (e, m)" by (cases em)
  have alloc: "allocations_succeed e m s0"
    using Cons.prems em by (intro allocations_succeed_small) simp_all
  have step: "add_log_entry e m s0 = Inr (appended m s0)"
    by (rule add_log_entry_eq [OF Cons.prems(1) alloc])
  have "append_all ems (appended m s0)
        = Inr (foldl (\<lambda>s m. appended m s) (appended m s0) (map snd ems))"
  proof (rule Cons.IH)
    show "store_ok (appended m s0)"
      by (rule store_ok_appended [OF Cons.prems(1) alloc])
    show "\<forall>em \<in> set ems. realloc_grants (fst em) \<and> strdup_grants (fst em)"
      using Cons.prems(2) by simp
    show "log_count (appended m s0) + length ems \<le> 2 ^ 59"
      using Cons.prems(3) by simp
  qed
  then show ?case
    using em step by simp
qed

lemma texts_length:
  assumes "store_ok s"
  shows "length (texts s) = log_count s"
  using assms by (simp add: texts_def entries_def store_ok_def)

lemma env_ok_grants [simp]:
  "realloc_grants env_ok" "strdup_grants env_ok" "fopen_grants env_ok path"
  by (simp_all add: env_ok_def any_path_def)

lemma run_adds:
  "run (map (\<lambda>em. (fst em, Add_log_entry (snd em))) ems) s = append_all ems s"
  by (induction ems arbitrary: s) (auto split: sum.splits)

lemma foldl_appended_count:
  "log_count (foldl (\<lambda>s m. appended m s) s ms) = log_count s + length ms"
  by (induction ms arbitrary: s) simp_all

lemma foldl_appended_capacity:
  assumes "log_count s + length ms \<le> log_capacity s"
  shows "log_capacity (foldl (\<lambda>s m. appended m s) s ms) = log_capacity s"
  using assms by (induction ms arbitrary: s) (simp_all add: appended_capacity)

lemma sixteen_appends:
  "append_all (replicate 16 (env_ok, ''x'')) (initial_state no_files)
   = Inr (foldl (\<lambda>s m. appended m s) (initial_state no_files) (replicate 16 ''x''))"
proof -
  have "log_count (initial_state no_files) + length (replicate 16 (env_ok, ''x'')) \<le> 2 ^ 59"
    by (simp add: initial_state_def)
  from append_all_eq [OF store_ok_initial _ this] show ?thesis
    by simp
qed

lemma sixteen_full:
  "log_count (foldl (\<lambda>s m. appended m s) (initial_state no_files) (replicate 16 ''x'')) = 16"
  "log_capacity (foldl (\<lambda>s m. appended m s) (initial_state no_files) (replicate 16 ''x'')) = 16"
proof -
  let ?s1 = "appended ''x'' (initial_state no_files)"
  have unroll: "replicate 16 ''x'' = ''x'' # replicate 15 ''x''"
    by (simp add: replicate_Suc [symmetric] del: replicate_Suc)
  have once: "log_count ?s1 = 1" "log_capacity ?s1 = 16"
    by (simp_all add: appended_capacity initial_state_def)
  show "log_count (foldl (\<lambda>s m. appended m s) (initial_state no_files) (replicate 16 ''x'')) = 16"
    by (simp add: foldl_appended_count initial_state_def)
  have "log_capacity (foldl (\<lambda>s m. appended m s) ?s1 (replicate 15 ''x'')) = log_capacity ?s1"
    using once by (intro foldl_appended_capacity) (simp del: appended_frame)
  then show "log_capacity (foldl (\<lambda>s m. appended m s) (initial_state no_files) (replicate 16 ''x'')) = 16"
    by (simp only: unroll foldl_Cons once)
qed

lemma full_log_example:
  "full_log env_ok DEBUG_LEVEL_ERROR ''main.c'' 42 ''main'' ''disk full''
   = ''[2025-01-01 10:00:00] ERROR [main.c:42] main: disk full''"
  by (simp add: full_log_def level_str_def DebugLevel_defs show_int_def env_ok_def)

lemma display_line_example:
  "display_line env_ok DEBUG_LEVEL_ERROR ''main.c'' 42 ''main'' ''disk full''
   = ''[2025-01-01 10:00:00] '' @ KRED @ ''ERROR'' @ KNRM
     @ '' [main.c:42] main: disk full'' @ newline"
  by (simp add: display_line_def level_str_def color_def DebugLevel_defs show_int_def env_ok_def)

lemma one_entry:
  "run [(env_ok, Add_log_entry ''A'')] (initial_state no_files)
   = Inr (appended ''A'' (initial_state no_files))"
  "texts (appended ''A'' (initial_state no_files)) = [''A'']"
  "log_count (appended ''A'' (initial_state no_files)) = 1"
proof -
  have "allocations_succeed env_ok ''A'' (initial_state no_files)"
    by (rule allocations_succeed_small [OF store_ok_initial]) (simp_all add: initial_state_def)
  then show "run [(env_ok, Add_log_entry ''A'')] (initial_state no_files)
             = Inr (appended ''A'' (initial_state no_files))"
    by (simp add: add_log_entry_eq [OF store_ok_initial])
  show "texts (appended ''A'' (initial_state no_files)) = [''A'']"
    by (simp add: texts_appended [OF store_ok_initial])
      (simp add: texts_def entries_def initial_state_def)
  show "log_count (appended ''A'' (initial_state no_files)) = 1"
    by (simp add: initial_state_def)
qed

lemma time_taken_nonneg:
  assumes "valid_timespec t0" and "valid_timespec t1" and "not_before t1 t0"
  shows "0 \<le> time_taken t1 t0"
proof -
  have "0 \<le> (tv_sec t1 - tv_sec t0) * 1000000000 + (tv_nsec t1 - tv_nsec t0)"
    using assms by (auto simp add: valid_timespec_def not_before_def)
  then have "0 \<le> real_of_int ((tv_sec t1 - tv_sec t0) * 1000000000 + (tv_nsec t1 - tv_nsec t0))"
    by simp
  also have "\<dots> = time_taken t1 t0 * 1000000000"
    by (simp add: time_taken_def field_simps)
  finally show ?thesis
    by simp
qed

lemma error_line_example:
  "full_log env_ok DEBUG_LEVEL_ERROR (header_file env_ok) 166 ''log_performance''
     ''Start time not defined.''
   = ''[2025-01-01 10:00:00] ERROR [pico_logger.h:166] log_performance: Start time not defined.''"
  "display_line env_ok DEBUG_LEVEL_ERROR (header_file env_ok) 166 ''log_performance''
     ''Start time not defined.''
   = ''[2025-01-01 10:00:00] '' @ KRED @ ''ERROR'' @ KNRM
     @ '' [pico_logger.h:166] log_performance: Start time not defined.'' @ newline"
  by (simp_all add: full_log_def display_line_def level_str_def color_def DebugLevel_defs
      show_int_def env_ok_def)

section \<open>The claims\<close>

subsection \<open>C1\<close>



subsection \<open>C2\<close>



subsection \<open>C3\<close>



subsection \<open>C4\<close>

text \<open>
  C4. An append never fails silently. From every state that a sequence of calls
  reaches, for every text, either both allocations the call may ask for succeed and it
  returns with exactly one more entry, the text, after the old ones; or an allocation
  (the larger array, or the copy of the text) fails, and the call ends the process
  with \<^verbatim>\<open>EXIT_FAILURE\<close> after one message on standard error, having added no
  entry. It never leaves defined behaviour.
\<close>

theorem append_never_silent:
  assumes "run cs (initial_state fs) = Inr s"
  shows "(allocations_succeed e m s
          \<and> (\<exists>s'. add_log_entry e m s = Inr s'
                \<and> log_count s' = log_count s + 1
                \<and> entries s' = entries s @ [Some m]))
         \<or> (\<not> allocations_succeed e m s
             \<and> (\<exists>w text. add_log_entry e m s = Inl (Exit EXIT_FAILURE w)
                   \<and> stderr w = stderr s @ [text]
                   \<and> log_count w = log_count s
                   \<and> entries w = entries s))"
proof -
  have ok: "store_ok s"
    by (rule reachable_store_ok [OF assms])
  show ?thesis
  proof (cases "allocations_succeed e m s")
    case True
    then show ?thesis
      by (simp add: add_log_entry_eq [OF ok True] entries_appended [OF ok])
  next
    case False
    from add_log_entry_exit [OF ok False] False show ?thesis
      by blast
  qed
qed

theorem append_never_silent_witness:
  "add_log_entry env_ok ''A'' (initial_state no_files)
     = Inr (appended ''A'' (initial_state no_files))
   \<and> entries (appended ''A'' (initial_state no_files)) = [Some ''A'']
   \<and> add_log_entry env_no_memory ''A'' (initial_state no_files)
     = Inl (Exit EXIT_FAILURE
         ((initial_state no_files)
            \<lparr>stderr := [''Failed to allocate memory for log entries'']\<rparr>))"
proof -
  have reach: "run [] (initial_state no_files) = Inr (initial_state no_files)"
    by simp
  have yes: "allocations_succeed env_ok ''A'' (initial_state no_files)"
    by (rule allocations_succeed_small [OF store_ok_initial]) (simp_all add: initial_state_def)
  have no: "\<not> allocations_succeed env_no_memory ''A'' (initial_state no_files)"
    by (simp add: allocations_succeed_def strdup_def env_no_memory_def)
  have none: "entries (initial_state no_files) = []"
    by (simp add: entries_def initial_state_def)
  have exit: "add_log_entry env_no_memory ''A'' (initial_state no_files)
     = Inl (Exit EXIT_FAILURE
         ((initial_state no_files)
            \<lparr>stderr := [''Failed to allocate memory for log entries'']\<rparr>))"
    by (simp add: add_log_entry_def grow_if_full_def realloc_def env_no_memory_def
        initial_state_def)
  show ?thesis
    using yes no none exit
      append_never_silent [OF reach, of env_ok "''A''"]
      append_never_silent [OF reach, of env_no_memory "''A''"]
    by (auto simp add: add_log_entry_eq [OF store_ok_initial yes]
        entries_appended [OF store_ok_initial])
qed

subsection \<open>C5\<close>

text \<open>
  C5, as stated, fails on the code. The report of a timer that was never armed goes
  through \<^verbatim>\<open>log_message\<close> and so through the gate: with logging disabled the
  call returns the state as it was, and no ERROR message is displayed or stored.
\<close>

theorem unarmed_report_disabled_counterexample:
  "\<not> armed (set_logging_enabled False (initial_state no_files))
   \<and> log_performance env_ok (Some ''parse'') (set_logging_enabled False (initial_state no_files))
     = Inr (set_logging_enabled False (initial_state no_files))"
  by (simp add: armed_def log_performance_def log_message_def set_logging_enabled_def
      initial_state_def)

text \<open>
  C5, amended. In every state that a sequence of calls reaches:
  arming at a clock reading that is not the zero timestamp, and then reporting at a
  reading that is not before it, returns and displays the elapsed time, whose exact
  value (before the rounding to \<^verbatim>\<open>double\<close>) is not negative;
  a report while the stored timestamp is zero calls \<^verbatim>\<open>log_message\<close> at level
  ERROR and displays no elapsed time: if logging is enabled and the minimum level is
  at most ERROR, the ERROR line is displayed, and then stored when the allocations
  succeed, the process ending otherwise; if the gate is closed the state is unchanged.
\<close>

theorem timer_protocol:
  assumes "run cs (initial_state fs) = Inr s"
  shows "(valid_timespec (clock_monotonic e0) \<and> valid_timespec (clock_monotonic e1)
          \<and> not_before (clock_monotonic e1) (clock_monotonic e0)
          \<and> (tv_nsec (clock_monotonic e0) \<noteq> 0 \<or> tv_sec (clock_monotonic e0) \<noteq> 0) \<longrightarrow>
            (\<exists>s1. log_performance e0 None s = Inr s1
               \<and> log_performance e1 (Some m) s1
                   = Inr (s1\<lparr>stdout := stdout s
                       @ [Metrics m (time_taken (clock_monotonic e1) (clock_monotonic e0))]\<rparr>)
               \<and> 0 \<le> time_taken (clock_monotonic e1) (clock_monotonic e0)))
         \<and> (\<not> armed s \<longrightarrow>
              (if logging_enabled s \<and> min_log_level s \<le> DEBUG_LEVEL_ERROR then
                 (if allocations_succeed e
                       (full_log e DEBUG_LEVEL_ERROR (header_file e) 166 ''log_performance''
                          ''Start time not defined.'') s
                  then log_performance e (Some m) s
                       = Inr (appended
                           (full_log e DEBUG_LEVEL_ERROR (header_file e) 166 ''log_performance''
                              ''Start time not defined.'')
                           (s\<lparr>stdout := stdout s
                               @ [Printed (display_line e DEBUG_LEVEL_ERROR (header_file e) 166
                                    ''log_performance'' ''Start time not defined.'')]\<rparr>))
                  else (\<exists>w. log_performance e (Some m) s = Inl (Exit EXIT_FAILURE w)
                          \<and> stdout w
                              = stdout s
                                @ [Printed (display_line e DEBUG_LEVEL_ERROR (header_file e) 166
                                     ''log_performance'' ''Start time not defined.'')]))
               else log_performance e (Some m) s = Inr s))"
proof -
  let ?line = "full_log e DEBUG_LEVEL_ERROR (header_file e) 166 ''log_performance''
                 ''Start time not defined.''"
  let ?shown = "display_line e DEBUG_LEVEL_ERROR (header_file e) 166 ''log_performance''
                  ''Start time not defined.''"
  have ok: "store_ok s"
    by (rule reachable_store_ok [OF assms])
  have short: "take 511 ''Start time not defined.'' = ''Start time not defined.''"
    by simp
  have arm_report: "\<exists>s1. log_performance e0 None s = Inr s1
               \<and> log_performance e1 (Some m) s1
                   = Inr (s1\<lparr>stdout := stdout s
                       @ [Metrics m (time_taken (clock_monotonic e1) (clock_monotonic e0))]\<rparr>)
               \<and> 0 \<le> time_taken (clock_monotonic e1) (clock_monotonic e0)"
    if "valid_timespec (clock_monotonic e0)" "valid_timespec (clock_monotonic e1)"
      "not_before (clock_monotonic e1) (clock_monotonic e0)"
      "tv_nsec (clock_monotonic e0) \<noteq> 0 \<or> tv_sec (clock_monotonic e0) \<noteq> 0"
    using that time_taken_nonneg [OF that(1,2,3)]
    by (auto simp add: log_performance_def)
  have unarmed: "log_performance e (Some m) s
                 = log_message e DEBUG_LEVEL_ERROR (header_file e) 166 ''log_performance''
                     ''Start time not defined.'' s"
    if "\<not> armed s"
    using that by (simp add: armed_def log_performance_def)
  have closed: "log_performance e (Some m) s = Inr s"
    if "\<not> armed s" "\<not> (logging_enabled s \<and> min_log_level s \<le> DEBUG_LEVEL_ERROR)"
    using that(2) by (auto simp add: unarmed [OF that(1)] intro: log_message_closed)
  have stored: "log_performance e (Some m) s
                = Inr (appended ?line (s\<lparr>stdout := stdout s @ [Printed ?shown]\<rparr>))"
    if "\<not> armed s" "logging_enabled s" "min_log_level s \<le> DEBUG_LEVEL_ERROR"
      "allocations_succeed e ?line s"
    using log_message_eq [OF ok that(2,3), of e "header_file e" 166 "''log_performance''"
        "''Start time not defined.''"] that(4)
    by (simp only: unarmed [OF that(1)] short)
  have ended: "\<exists>w. log_performance e (Some m) s = Inl (Exit EXIT_FAILURE w)
                  \<and> stdout w = stdout s @ [Printed ?shown]"
    if "\<not> armed s" "logging_enabled s" "min_log_level s \<le> DEBUG_LEVEL_ERROR"
      "\<not> allocations_succeed e ?line s"
  proof -
    let ?s1 = "s\<lparr>stdout := stdout s @ [Printed ?shown]\<rparr>"
    have ok1: "store_ok ?s1"
      using ok by simp
    have fail1: "\<not> allocations_succeed e ?line ?s1"
      using that(4) by simp
    from add_log_entry_exit [OF ok1 fail1] obtain w
      where "add_log_entry e ?line ?s1 = Inl (Exit EXIT_FAILURE w)" and "stdout w = stdout ?s1"
      by blast
    then show ?thesis
      using that(2,3) by (simp add: unarmed [OF that(1)] log_message_open)
  qed
  show ?thesis
    using arm_report closed stored ended by (simp only: split: if_splits) blast
qed

theorem timer_protocol_witness:
  "valid_timespec (clock_monotonic env_ok) \<and> valid_timespec (clock_monotonic env_later)
   \<and> not_before (clock_monotonic env_later) (clock_monotonic env_ok)
   \<and> (\<exists>s1. log_performance env_ok None (initial_state no_files) = Inr s1
          \<and> log_performance env_later (Some ''parse'') s1
              = Inr (s1\<lparr>stdout := [Metrics ''parse'' (1999999850 / 1000000000)]\<rparr>))
   \<and> \<not> armed (initial_state no_files)
   \<and> log_performance env_ok (Some ''parse'') (initial_state no_files)
     = Inr (appended
         ''[2025-01-01 10:00:00] ERROR [pico_logger.h:166] log_performance: Start time not defined.''
         ((initial_state no_files)
            \<lparr>stdout := [Printed (''[2025-01-01 10:00:00] '' @ KRED @ ''ERROR'' @ KNRM
               @ '' [pico_logger.h:166] log_performance: Start time not defined.''
               @ newline)]\<rparr>))"
proof -
  let ?s = "initial_state no_files"
  have reach: "run [] ?s = Inr ?s"
    by simp
  have clocks: "valid_timespec (clock_monotonic env_ok)"
    "valid_timespec (clock_monotonic env_later)"
    "not_before (clock_monotonic env_later) (clock_monotonic env_ok)"
    "tv_nsec (clock_monotonic env_ok) \<noteq> 0 \<or> tv_sec (clock_monotonic env_ok) \<noteq> 0"
    by (simp_all add: valid_timespec_def not_before_def env_later_def env_ok_def)
  have elapsed: "time_taken (clock_monotonic env_later) (clock_monotonic env_ok)
                 = 1999999850 / 1000000000"
    by (simp add: time_taken_def env_later_def env_ok_def)
  have unarmed: "\<not> armed ?s"
    by (simp add: armed_def initial_state_def)
  have gate: "logging_enabled ?s \<and> min_log_level ?s \<le> DEBUG_LEVEL_ERROR"
    by (simp add: initial_state_def DebugLevel_defs)
  have alloc: "allocations_succeed env_ok
      (full_log env_ok DEBUG_LEVEL_ERROR (header_file env_ok) 166 ''log_performance''
         ''Start time not defined.'') ?s"
    by (rule allocations_succeed_small [OF store_ok_initial]) (simp_all add: initial_state_def)
  have fresh: "stdout ?s = []"
    by (simp add: initial_state_def)
  have timed: "\<exists>s1. log_performance env_ok None ?s = Inr s1
          \<and> log_performance env_later (Some ''parse'') s1
              = Inr (s1\<lparr>stdout := [Metrics ''parse'' (1999999850 / 1000000000)]\<rparr>)"
    using timer_protocol [OF reach, of env_ok env_later "''parse''" env_ok] clocks
    unfolding elapsed fresh by simp
  have logged: "log_performance env_ok (Some ''parse'') ?s
     = Inr (appended
         ''[2025-01-01 10:00:00] ERROR [pico_logger.h:166] log_performance: Start time not defined.''
         (?s\<lparr>stdout := [Printed (''[2025-01-01 10:00:00] '' @ KRED @ ''ERROR'' @ KNRM
               @ '' [pico_logger.h:166] log_performance: Start time not defined.''
               @ newline)]\<rparr>))"
    using timer_protocol [OF reach, of env_ok env_later "''parse''" env_ok] unarmed gate alloc
    unfolding error_line_example fresh by simp
  show ?thesis
    using clocks(1,2,3) timed unarmed logged by simp
qed

subsection \<open>C6\<close>

text \<open>
  C6. For every path that cannot be opened for writing, \<^verbatim>\<open>save_log_file\<close>
  reports the error on standard error, writes nothing, returns without ending the
  process, and leaves the log store unchanged: the state it returns differs from the
  one it was given by the one \<^verbatim>\<open>perror\<close> message only.
\<close>

theorem save_log_file_open_failure:
  assumes "\<not> fopen_grants e path"
  shows "\<exists>s'. save_log_file e path s = Inr s'
           \<and> s' = s\<lparr>stderr := stderr s @ [''Failed to open log file'']\<rparr>
           \<and> files s' = files s
           \<and> log_entries s' = log_entries s
           \<and> log_capacity s' = log_capacity s
           \<and> log_count s' = log_count s"
  using assms by (simp add: save_log_file_fails)

theorem save_log_file_open_failure_witness:
  "\<not> fopen_grants env_no_open ''/no/such/dir/log.txt''
   \<and> save_log_file env_no_open ''/no/such/dir/log.txt'' (initial_state no_files)
       = Inr ((initial_state no_files)\<lparr>stderr := [''Failed to open log file'']\<rparr>)"
proof -
  have closed: "\<not> fopen_grants env_no_open ''/no/such/dir/log.txt''"
    by (simp add: env_no_open_def env_ok_def no_path_def)
  show ?thesis
    using closed
      save_log_file_open_failure [OF closed, of "initial_state no_files"]
    by (simp add: initial_state_def)
qed

subsection \<open>C7\<close>

text \<open>
  C7. With logging disabled, no sequence of \<^verbatim>\<open>log_message\<close> calls, at any
  levels, changes the state: nothing is appended to the store and nothing is
  displayed. Enabling logging again afterwards gives the state before the calls with
  the flag set: the minimum level, the stored entries and the output are as they
  were, and if logging was enabled before it was disabled, the state is the one before
  disabling, so every later call behaves as it would have then.
\<close>

theorem logging_disabled_is_silent:
  assumes "\<forall>c \<in> set cs. is_Log_message (snd c)"
  shows "run cs (set_logging_enabled False s) = Inr (set_logging_enabled False s)
         \<and> run (cs @ [(e, Set_logging_enabled True)]) (set_logging_enabled False s)
             = Inr (s\<lparr>logging_enabled := True\<rparr>)
         \<and> (logging_enabled s \<longrightarrow>
              run ((e0, Set_logging_enabled False) # cs @ [(e, Set_logging_enabled True)]) s
                = Inr s)"
proof -
  have disabled: "\<not> logging_enabled (set_logging_enabled False s)"
    by (simp add: set_logging_enabled_def)
  have silent: "run cs (set_logging_enabled False s) = Inr (set_logging_enabled False s)"
    by (rule run_disabled [OF disabled assms])
  have reenabled: "run (cs @ [(e, Set_logging_enabled True)]) (set_logging_enabled False s)
              = Inr (s\<lparr>logging_enabled := True\<rparr>)"
    by (simp add: run_append silent) (simp add: set_logging_enabled_def)
  have "s\<lparr>logging_enabled := True\<rparr> = s" if "logging_enabled s"
    using that by simp
  then show ?thesis
    using silent reenabled by simp
qed

theorem logging_disabled_is_silent_witness:
  "run [(env_ok, Log_message DEBUG_LEVEL_INFO ''main.c'' 10 ''main'' ''starting''),
        (env_ok, Log_message DEBUG_LEVEL_CRITICAL ''main.c'' 11 ''main'' ''failed'')]
     (set_logging_enabled False (initial_state no_files))
   = Inr (set_logging_enabled False (initial_state no_files))
   \<and> run [(env_ok, Set_logging_enabled False),
          (env_ok, Log_message DEBUG_LEVEL_INFO ''main.c'' 10 ''main'' ''starting''),
          (env_ok, Log_message DEBUG_LEVEL_CRITICAL ''main.c'' 11 ''main'' ''failed''),
          (env_ok, Set_logging_enabled True)]
       (initial_state no_files)
     = Inr (initial_state no_files)"
  using logging_disabled_is_silent
    [of "[(env_ok, Log_message DEBUG_LEVEL_INFO ''main.c'' 10 ''main'' ''starting''),
          (env_ok, Log_message DEBUG_LEVEL_CRITICAL ''main.c'' 11 ''main'' ''failed'')]"
      "initial_state no_files" env_ok env_ok]
  by (simp add: initial_state_def)

subsection \<open>C8\<close>



subsection \<open>C9\<close>



subsection \<open>C10\<close>

text \<open>
  C10. For every armed timer (a stored timestamp that is not zero) and every message
  that is not NULL, \<^verbatim>\<open>log_performance\<close> returns and displays the elapsed-time
  line, whatever the logging-enabled flag and the minimum level are: the same line is
  added to the output for every setting of the two, and nothing else changes.
\<close>

theorem report_ignores_gate:
  assumes "armed s"
  shows "log_performance e (Some m) (s\<lparr>logging_enabled := b, min_log_level := level\<rparr>)
         = Inr (s\<lparr>logging_enabled := b, min_log_level := level,
                  stdout := stdout s
                    @ [Metrics m (time_taken (clock_monotonic e) (start_time s))]\<rparr>)"
  using assms by (auto simp add: armed_def log_performance_def)

theorem report_ignores_gate_witness:
  "armed ((initial_state no_files)\<lparr>start_time := \<lparr>tv_sec = 7, tv_nsec = 250\<rparr>\<rparr>)
   \<and> log_performance env_later (Some ''parse'')
       ((initial_state no_files)
          \<lparr>start_time := \<lparr>tv_sec = 7, tv_nsec = 250\<rparr>,
           logging_enabled := False, min_log_level := DEBUG_LEVEL_CRITICAL\<rparr>)
     = Inr ((initial_state no_files)
          \<lparr>start_time := \<lparr>tv_sec = 7, tv_nsec = 250\<rparr>,
           logging_enabled := False, min_log_level := DEBUG_LEVEL_CRITICAL,
           stdout := [Metrics ''parse'' (1999999850 / 1000000000)]\<rparr>)"
proof -
  have a: "armed ((initial_state no_files)\<lparr>start_time := \<lparr>tv_sec = 7, tv_nsec = 250\<rparr>\<rparr>)"
    by (simp add: armed_def)
  show ?thesis
    using a report_ignores_gate
        [OF a, where e = env_later and m = "''parse''" and b = False
           and level = DEBUG_LEVEL_CRITICAL]
    by (simp add: initial_state_def env_later_def env_ok_def time_taken_def)
qed

end
